theory Spec2Isabelle
  imports Main "HOL-Library.Word"
begin

section \<open>The study session of FlashcardMode.tsx\<close>

text \<open>
  The component \<open>FlashcardMode\<close> (src/components/FlashcardMode.tsx) is a React function
  component. Its state variables (\<open>useState\<close>) become one record, each event handler
  becomes a function from the state of the render whose closure it was created in to the
  state after the batched updates, and the two \<open>useEffect\<close> blocks become functions
  that run after a handler when one of their dependencies has changed.
\<close>

subsection \<open>Strings\<close>

text \<open>
  A JavaScript string is a sequence of UTF-16 code units. \<open>String.prototype.trim\<close>
  removes leading and trailing white space and line terminators (ECMAScript: TAB, LF, VT,
  FF, CR, SP, NBSP, ZWNBSP and the Unicode category Zs, LS, PS).
\<close>

type_synonym code_unit = "16 word"
type_synonym js_string = "code_unit list"

definition isWhiteSpace :: "code_unit \<Rightarrow> bool" where
  "isWhiteSpace c \<longleftrightarrow>
     c \<in> set [0x0009, 0x000A, 0x000B, 0x000C, 0x000D, 0x0020, 0x00A0, 0x1680,
              0x2000, 0x2001, 0x2002, 0x2003, 0x2004, 0x2005, 0x2006, 0x2007,
              0x2008, 0x2009, 0x200A, 0x2028, 0x2029, 0x202F, 0x205F, 0x3000, 0xFEFF]"

definition trim :: "js_string \<Rightarrow> js_string" where
  "trim s = rev (dropWhile isWhiteSpace (rev (dropWhile isWhiteSpace s)))"

subsection \<open>Data (types.ts)\<close>

text \<open>
  \<open>FlashcardData\<close> is \<open>{id, chinese, english}\<close> and \<open>UserResult\<close> is
  \<open>{cardId, chinese, correctEnglish, userInput, isSkipped, isBookmarked}\<close>. The fields
  of a card carry the suffix \<open>_fc\<close> here, since two records cannot share a field name.
\<close>

record FlashcardData =
  id_fc :: js_string
  chinese_fc :: js_string
  english_fc :: js_string

record UserResult =
  cardId :: js_string
  chinese :: js_string
  correctEnglish :: js_string
  userInput :: js_string
  isSkipped :: bool
  isBookmarked :: bool

text \<open>
  The state of one mounted component. \<open>results\<close> is the \<open>Record<string, UserResult>\<close>
  keyed by card id, read as its TypeScript type says: a key that was never written is
  absent. (The ids made by the importer are \<open>card-<index>\<close> and \<open>1\<close> .. \<open>5\<close>, none of
  which names a property that a plain object inherits.)
  \<open>isBookmarked_st\<close> is the state variable \<open>isBookmarked\<close>.
  Two fields are not state variables of the source: \<open>resultsRev\<close> counts the calls of
  \<open>setResults\<close>, each of which installs a new object, which is what the dependency
  array of the first effect compares; \<open>emitted\<close> holds the argument \<open>onComplete\<close> was
  called with. App.tsx answers \<open>onComplete\<close> by \<open>setIsAnalyzing(true)\<close>, which
  unmounts the component, so a session with \<open>emitted \<noteq> None\<close> takes no further action.
\<close>

record session =
  queue :: "nat list"
  queueIndex :: nat
  results :: "js_string \<rightharpoonup> UserResult"
  resultsRev :: nat
  isFlipped :: bool
  input :: js_string
  isBookmarked_st :: bool
  showRetryPrompt :: bool
  emitted :: "UserResult list option"

datatype error = TypeError

text \<open>
  What a handler leaves behind: it returns, or it throws after the state updates it had
  already queued (React applies those all the same).
\<close>

datatype outcome = Ok session | Throws error session

fun after :: "outcome \<Rightarrow> session" where
  "after (Ok s) = s"
| "after (Throws e s) = s"

fun threw :: "outcome \<Rightarrow> bool" where
  "threw (Ok s) = False"
| "threw (Throws e s) = True"

datatype action =
  SetInput js_string | ToggleBookmark | Previous | Skip | Submit | Next | Retry | Finish

subsection \<open>Initial and derived state (lines 14 to 33)\<close>

definition init :: "FlashcardData list \<Rightarrow> session" where
  "init cards =
     \<lparr>queue = [0..<length cards], queueIndex = 0, results = Map.empty, resultsRev = 0,
      isFlipped = False, input = [], isBookmarked_st = False, showRetryPrompt = False,
      emitted = None\<rparr>"

text \<open>
  \<open>cards[queue[queueIndex]]\<close>: an index out of range reads \<open>undefined\<close>, and
  \<open>cards[undefined]\<close> is \<open>undefined\<close> again. The position stands for the identity of
  the card object.
\<close>

definition currentCardPos :: "FlashcardData list \<Rightarrow> session \<Rightarrow> nat option" where
  "currentCardPos cards s =
     (if queueIndex s < length (queue s) \<and> queue s ! queueIndex s < length cards
      then Some (queue s ! queueIndex s) else None)"

definition currentCard :: "FlashcardData list \<Rightarrow> session \<Rightarrow> FlashcardData option" where
  "currentCard cards s = map_option (\<lambda>i. cards ! i) (currentCardPos cards s)"

text \<open>\<open>results[c.id]?.isSkipped\<close>, as a truth value.\<close>

definition skippedIn :: "(js_string \<rightharpoonup> UserResult) \<Rightarrow> FlashcardData \<Rightarrow> bool" where
  "skippedIn res c = (case res (id_fc c) of None \<Rightarrow> False | Some r \<Rightarrow> isSkipped r)"

definition skippedCount :: "FlashcardData list \<Rightarrow> session \<Rightarrow> nat" where
  "skippedCount cards s = length (filter (skippedIn (results s)) cards)"

subsection \<open>Handlers (lines 57 to 142)\<close>

text \<open>
  A handler reads the state of its render and queues updates; each state variable is
  set at most once per handler, so the updates compose as record updates.
  \<^verbatim>\<open>saveCurrentResult(skipped, currentInput = input, currentBookmark = isBookmarked)\<close>
  builds the result from \<open>currentCard\<close> (a \<open>TypeError\<close> when it is \<open>undefined\<close>) and
  runs \<^verbatim>\<open>setResults(prev => ({...prev, [currentCard.id]: result}))\<close>.
\<close>

definition saveCurrentResult ::
  "FlashcardData list \<Rightarrow> session \<Rightarrow> bool \<Rightarrow> js_string \<Rightarrow> bool \<Rightarrow> outcome" where
  "saveCurrentResult cards s skipped currentInput currentBookmark =
     (case currentCard cards s of
        None \<Rightarrow> Throws TypeError s
      | Some c \<Rightarrow>
          Ok (s\<lparr>results := (results s)(id_fc c \<mapsto>
                  \<lparr>cardId = id_fc c, chinese = chinese_fc c, correctEnglish = english_fc c,
                   userInput = currentInput, isSkipped = skipped,
                   isBookmarked = currentBookmark\<rparr>),
                resultsRev := Suc (resultsRev s)\<rparr>))"

text \<open>
  \<^verbatim>\<open>const newState = !isBookmarked; setIsBookmarked(newState);
  saveCurrentResult(false, input, newState);\<close>
\<close>

definition toggleBookmark :: "FlashcardData list \<Rightarrow> session \<Rightarrow> outcome" where
  "toggleBookmark cards s =
     (let newState = \<not> isBookmarked_st s
      in saveCurrentResult cards (s\<lparr>isBookmarked_st := newState\<rparr>) False (input s) newState)"

text \<open>
  \<^verbatim>\<open>if (queueIndex > 0) { setIsFlipped(false); setQueueIndex(prev => prev - 1); }\<close>
\<close>

definition handlePrevious :: "session \<Rightarrow> session" where
  "handlePrevious s =
     (if queueIndex s > 0 then s\<lparr>isFlipped := False, queueIndex := queueIndex s - 1\<rparr>
      else s)"

text \<open>
  \<^verbatim>\<open>if (queueIndex < queue.length - 1) { setIsFlipped(false); setQueueIndex(prev => prev + 1); }
  else { setIsFlipped(false); setShowRetryPrompt(true); }\<close>
  The comparison is made in the integers: for an empty queue the right side is \<open>-1\<close>.
\<close>

definition goToNextCard :: "session \<Rightarrow> session" where
  "goToNextCard s =
     (if int (queueIndex s) < int (length (queue s)) - 1
      then s\<lparr>isFlipped := False, queueIndex := queueIndex s + 1\<rparr>
      else s\<lparr>isFlipped := False, showRetryPrompt := True\<rparr>)"

text \<open>
  \<^verbatim>\<open>saveCurrentResult(true); goToNextCard();\<close> and
  \<^verbatim>\<open>if (!input.trim()) return; saveCurrentResult(false); setIsFlipped(true);\<close>
\<close>

definition handleSkip :: "FlashcardData list \<Rightarrow> session \<Rightarrow> outcome" where
  "handleSkip cards s =
     (case saveCurrentResult cards s True (input s) (isBookmarked_st s) of
        Ok s' \<Rightarrow> Ok (goToNextCard s')
      | Throws e s' \<Rightarrow> Throws e s')"

definition handleSubmit :: "FlashcardData list \<Rightarrow> session \<Rightarrow> outcome" where
  "handleSubmit cards s =
     (if trim (input s) = [] then Ok s
      else case saveCurrentResult cards s False (input s) (isBookmarked_st s) of
             Ok s' \<Rightarrow> Ok (s'\<lparr>isFlipped := True\<rparr>)
           | Throws e s' \<Rightarrow> Throws e s')"

text \<open>
  \<open>handleFinish\<close> maps every card to \<^verbatim>\<open>results[card.id] || {...}\<close>, the object on
  the right being the skipped result with empty input, and calls \<open>onComplete\<close> with the
  list.
\<close>

definition finalResults :: "FlashcardData list \<Rightarrow> (js_string \<rightharpoonup> UserResult) \<Rightarrow> UserResult list" where
  "finalResults cards res =
     map (\<lambda>card. case res (id_fc card) of
                    Some r \<Rightarrow> r
                  | None \<Rightarrow> \<lparr>cardId = id_fc card, chinese = chinese_fc card,
                             correctEnglish = english_fc card, userInput = [],
                             isSkipped = True, isBookmarked = False\<rparr>) cards"

definition handleFinish :: "FlashcardData list \<Rightarrow> session \<Rightarrow> session" where
  "handleFinish cards s = s\<lparr>emitted := Some (finalResults cards (results s))\<rparr>"

text \<open>
  \<open>handleRetry\<close> takes \<^verbatim>\<open>cards.map((_, idx) => idx).filter(idx => results[cards[idx].id]?.isSkipped)\<close>;
  if the list is not empty it becomes the queue, with \<open>setQueueIndex(0)\<close> and
  \<open>setShowRetryPrompt(false)\<close>, otherwise \<open>handleFinish()\<close> is called.
\<close>

definition skippedIndices :: "FlashcardData list \<Rightarrow> (js_string \<rightharpoonup> UserResult) \<Rightarrow> nat list" where
  "skippedIndices cards res = filter (\<lambda>idx. skippedIn res (cards ! idx)) [0..<length cards]"

definition handleRetry :: "FlashcardData list \<Rightarrow> session \<Rightarrow> session" where
  "handleRetry cards s =
     (let skipped = skippedIndices cards (results s)
      in if length skipped > 0
         then s\<lparr>queue := skipped, queueIndex := 0, showRetryPrompt := False\<rparr>
         else handleFinish cards s)"

text \<open>
  The actions: typing into the text area (\<open>onChange\<close> calls \<open>setInput\<close>), and the handlers
  the controls are wired to. \<open>Next\<close> is \<open>goToNextCard\<close> (the button \<open>Next Card\<close>),
  \<open>Retry\<close> and \<open>Finish\<close> are the two buttons of the prompt.
\<close>

fun handler :: "FlashcardData list \<Rightarrow> action \<Rightarrow> session \<Rightarrow> outcome" where
  "handler cards (SetInput txt) s = Ok (s\<lparr>input := txt\<rparr>)"
| "handler cards ToggleBookmark s = toggleBookmark cards s"
| "handler cards Previous s = Ok (handlePrevious s)"
| "handler cards Skip s = handleSkip cards s"
| "handler cards Submit s = handleSubmit cards s"
| "handler cards Next s = Ok (goToNextCard s)"
| "handler cards Retry s = Ok (handleRetry cards s)"
| "handler cards Finish s = Ok (handleFinish cards s)"

subsection \<open>Effects (lines 35 to 55)\<close>

text \<open>
  The first effect reloads the edit buffer from the ledger; its dependencies are
  \<open>[currentCard, results, isFlipped]\<close>. The second calls \<open>handleFinish\<close> when the
  prompt flag is set and nothing is skipped; its dependencies are
  \<open>[showRetryPrompt, skippedCount]\<close>. Both read the state of the render that follows
  the handler, and neither writes what the other reads, so one pass settles them.
\<close>

definition rehydrate :: "FlashcardData list \<Rightarrow> session \<Rightarrow> session" where
  "rehydrate cards s =
     (case currentCard cards s of
        None \<Rightarrow> s
      | Some c \<Rightarrow>
          (case results s (id_fc c) of
             Some r \<Rightarrow> s\<lparr>input := userInput r, isBookmarked_st := isBookmarked r\<rparr>
           | None \<Rightarrow> s\<lparr>input := [], isBookmarked_st := False\<rparr>))"

definition effects :: "FlashcardData list \<Rightarrow> session \<Rightarrow> session \<Rightarrow> session" where
  "effects cards prev s =
     (if emitted s \<noteq> None then s
      else
        let s1 = (if currentCardPos cards s \<noteq> currentCardPos cards prev
                     \<or> resultsRev s \<noteq> resultsRev prev \<or> isFlipped s \<noteq> isFlipped prev
                  then rehydrate cards s else s)
        in if (showRetryPrompt s \<noteq> showRetryPrompt prev
                 \<or> skippedCount cards s \<noteq> skippedCount cards prev)
              \<and> showRetryPrompt s \<and> skippedCount cards s = 0
           then handleFinish cards s1 else s1)"

text \<open>
  One action on a session: nothing if the component is unmounted; otherwise the handler,
  the render, and the effects. \<open>exec\<close> runs a sequence of actions.
\<close>

definition dispatch :: "FlashcardData list \<Rightarrow> action \<Rightarrow> session \<Rightarrow> outcome" where
  "dispatch cards a s =
     (if emitted s \<noteq> None then Ok s
      else case handler cards a s of
             Ok s' \<Rightarrow> Ok (effects cards s s')
           | Throws e s' \<Rightarrow> Throws e (effects cards s s'))"

fun exec :: "FlashcardData list \<Rightarrow> action list \<Rightarrow> session \<Rightarrow> session" where
  "exec cards [] s = s"
| "exec cards (a # as) s = exec cards as (after (dispatch cards a s))"

subsection \<open>What is rendered (lines 144 to 171)\<close>

datatype view = RetryPromptView | NullView | CardView

definition render :: "FlashcardData list \<Rightarrow> session \<Rightarrow> view" where
  "render cards s =
     (if showRetryPrompt s \<and> skippedCount cards s > 0 then RetryPromptView
      else if currentCard cards s = None then NullView
      else CardView)"

datatype phase = Active | RetryPrompt | Finished

definition phase :: "FlashcardData list \<Rightarrow> session \<Rightarrow> phase" where
  "phase cards s =
     (if emitted s \<noteq> None then Finished
      else if render cards s = RetryPromptView then RetryPrompt
      else Active)"

text \<open>
  The controls the rendered output holds: the two buttons of the prompt, or the controls
  of the card (the \<open>Previous\<close> button is disabled at the first queue position).
\<close>

definition offers :: "FlashcardData list \<Rightarrow> session \<Rightarrow> action \<Rightarrow> bool" where
  "offers cards s a =
     (emitted s = None \<and>
      (case render cards s of
         RetryPromptView \<Rightarrow> a = Retry \<or> a = Finish
       | NullView \<Rightarrow> False
       | CardView \<Rightarrow> a \<noteq> Retry \<and> a \<noteq> Finish \<and> (a = Previous \<longrightarrow> queueIndex s \<noteq> 0)))"

fun offered_run :: "FlashcardData list \<Rightarrow> action list \<Rightarrow> session \<Rightarrow> bool" where
  "offered_run cards [] s = True"
| "offered_run cards (a # as) s =
     (offers cards s a \<and> offered_run cards as (after (dispatch cards a s)))"

subsection \<open>Mounting, and the importer's guard\<close>

text \<open>
  The first render evaluates the initial state and the derived values of lines 28 to 33;
  none of these expressions throws (\<open>cards[undefined]\<close> is \<open>undefined\<close>, \<open>0 / 0\<close> is
  \<open>NaN\<close>). Then the effects run once: the first reloads the edit buffer, the condition
  of the second is false.
\<close>

definition mount :: "FlashcardData list \<Rightarrow> outcome" where
  "mount cards = Ok (rehydrate cards (init cards))"

text \<open>
  The end of \<open>parseInput\<close> in FileUpload.tsx, from the parsed list on: an empty list sets
  the error message \<open>Could not parse valid flashcards\<close> and returns; otherwise
  \<open>onDataLoaded\<close> hands the list to App.tsx, which mounts the component with it.
\<close>

datatype upload_error = CouldNotParse

definition onParsed :: "FlashcardData list \<Rightarrow> upload_error + outcome" where
  "onParsed parsedData =
     (if length parsedData = 0 then Inl CouldNotParse else Inr (mount parsedData))"

subsection \<open>Invariants of a run\<close>

text \<open>An entry of the ledger carries the id it is stored under.\<close>

definition ledger_keyed :: "session \<Rightarrow> bool" where
  "ledger_keyed s \<longleftrightarrow> (\<forall>k r. results s k = Some r \<longrightarrow> cardId r = k)"

text \<open>What was handed to \<open>onComplete\<close> is the finalisation of the ledger as it stands.\<close>

definition emitted_final :: "FlashcardData list \<Rightarrow> session \<Rightarrow> bool" where
  "emitted_final cards s \<longleftrightarrow>
     (\<forall>fr. emitted s = Some fr \<longrightarrow> fr = finalResults cards (results s))"

text \<open>A mounted session never rests with the prompt flag set and nothing skipped.\<close>

definition prompt_live :: "FlashcardData list \<Rightarrow> session \<Rightarrow> bool" where
  "prompt_live cards s \<longleftrightarrow>
     (emitted s = None \<longrightarrow> \<not> (showRetryPrompt s \<and> skippedCount cards s = 0))"



text \<open>The cursor is inside the queue and the queue holds positions of cards.\<close>

definition queue_ok :: "FlashcardData list \<Rightarrow> session \<Rightarrow> bool" where
  "queue_ok cards s \<longleftrightarrow>
     queueIndex s < length (queue s) \<and> (\<forall>i \<in> set (queue s). i < length cards)"

text \<open>The object \<open>handleFinish\<close> puts in a gap.\<close>

definition synthesized :: "FlashcardData \<Rightarrow> UserResult" where
  "synthesized c =
     \<lparr>cardId = id_fc c, chinese = chinese_fc c, correctEnglish = english_fc c,
      userInput = [], isSkipped = True, isBookmarked = False\<rparr>"

subsection \<open>The last write to a card\<close>

text \<open>
  An action writes the ledger when it reaches \<open>setResults\<close>: the component is mounted,
  there is a current card, and the action is \<open>toggleBookmark\<close>, \<open>handleSkip\<close>, or a
  \<open>handleSubmit\<close> that passes the guard. \<open>lastWrite\<close> follows a run and keeps, for
  each card id, the last action that wrote its entry.
\<close>

definition writes :: "FlashcardData list \<Rightarrow> action \<Rightarrow> session \<Rightarrow> bool" where
  "writes cards a s \<longleftrightarrow>
     emitted s = None \<and> currentCard cards s \<noteq> None \<and>
     (a = ToggleBookmark \<or> a = Skip \<or> (a = Submit \<and> trim (input s) \<noteq> []))"

fun lastWrite ::
  "FlashcardData list \<Rightarrow> action list \<Rightarrow> session \<Rightarrow> (js_string \<rightharpoonup> action)
     \<Rightarrow> (js_string \<rightharpoonup> action)" where
  "lastWrite cards [] s w = w"
| "lastWrite cards (a # as) s w =
     lastWrite cards as (after (dispatch cards a s))
       (case currentCard cards s of
          Some c \<Rightarrow> if writes cards a s then w(id_fc c \<mapsto> a) else w
        | None \<Rightarrow> w)"

text \<open>
  The actions of a run that were taken on a card id: those dispatched while the component
  was mounted and the current card had that id.
\<close>

fun actionsOn ::
  "FlashcardData list \<Rightarrow> action list \<Rightarrow> session \<Rightarrow> js_string \<Rightarrow> action list" where
  "actionsOn cards [] s k = []"
| "actionsOn cards (a # as) s k =
     (if emitted s = None \<and> map_option id_fc (currentCard cards s) = Some k then [a] else [])
     @ actionsOn cards as (after (dispatch cards a s)) k"

fun entry_rel :: "UserResult option \<Rightarrow> action option \<Rightarrow> bool" where
  "entry_rel None None = True"
| "entry_rel (Some r) (Some a) = (isSkipped r \<longleftrightarrow> a = Skip)"
| "entry_rel (Some r) None = False"
| "entry_rel None (Some a) = False"

definition write_rel :: "session \<Rightarrow> (js_string \<rightharpoonup> action) \<Rightarrow> bool" where
  "write_rel s w \<longleftrightarrow> (\<forall>k. entry_rel (results s k) (w k))"

subsection \<open>The cards and texts of the examples\<close>

text \<open>
  The two cards of the end-to-end scenario, with ids \<open>1\<close> and \<open>2\<close> and the answers
  \<open>Hello\<close> and \<open>Thanks\<close>; four cards with ids \<open>A\<close> to \<open>D\<close>; the texts \<open>Hi\<close>,
  \<open>ok\<close> and \<open>no\<close>.
\<close>

definition card1 :: FlashcardData where
  "card1 = \<lparr>id_fc = [0x31], chinese_fc = [0x4F60, 0x597D],
            english_fc = [0x48, 0x65, 0x6C, 0x6C, 0x6F]\<rparr>"

definition card2 :: FlashcardData where
  "card2 = \<lparr>id_fc = [0x32], chinese_fc = [0x8C22, 0x8C22],
            english_fc = [0x54, 0x68, 0x61, 0x6E, 0x6B, 0x73]\<rparr>"

definition cardA :: FlashcardData where
  "cardA = \<lparr>id_fc = [0x41], chinese_fc = [0x4E00], english_fc = [0x6F, 0x6E, 0x65]\<rparr>"

definition cardB :: FlashcardData where
  "cardB = \<lparr>id_fc = [0x42], chinese_fc = [0x4E8C], english_fc = [0x74, 0x77, 0x6F]\<rparr>"

definition cardC :: FlashcardData where
  "cardC = \<lparr>id_fc = [0x43], chinese_fc = [0x4E09], english_fc = [0x74, 0x72, 0x69]\<rparr>"

definition cardD :: FlashcardData where
  "cardD = \<lparr>id_fc = [0x44], chinese_fc = [0x56DB], english_fc = [0x71, 0x75, 0x61]\<rparr>"

definition txtHi :: js_string where
  "txtHi = [0x48, 0x69]"

definition txtOk :: js_string where
  "txtOk = [0x6F, 0x6B]"

definition txtNo :: js_string where
  "txtNo = [0x6E, 0x6F]"

section \<open>Properties\<close>

subsection \<open>Unfolding and frame lemmas\<close>

lemmas handler_defs =
  toggleBookmark_def handleSkip_def handleSubmit_def handlePrevious_def goToNextCard_def
  handleRetry_def handleFinish_def saveCurrentResult_def

lemmas eval_defs =
  init_def dispatch_def effects_def rehydrate_def handler_defs currentCard_def
  currentCardPos_def skippedCount_def skippedIn_def skippedIndices_def finalResults_def
  trim_def isWhiteSpace_def Let_def render_def phase_def offers_def writes_def
  card1_def card2_def cardA_def cardB_def cardC_def cardD_def txtHi_def txtOk_def txtNo_def

lemma trim_Nil_iff: "trim s = [] \<longleftrightarrow> (\<forall>c \<in> set s. isWhiteSpace c)"
proof
  assume "trim s = []"
  then have "dropWhile isWhiteSpace (rev (dropWhile isWhiteSpace s)) = []"
    by (simp add: trim_def)
  then have all: "\<forall>x \<in> set (dropWhile isWhiteSpace s). isWhiteSpace x"
    by (simp add: dropWhile_eq_Nil_conv)
  have "dropWhile isWhiteSpace s = []"
  proof (rule ccontr)
    assume ne: "dropWhile isWhiteSpace s \<noteq> []"
    then have "\<not> isWhiteSpace (hd (dropWhile isWhiteSpace s))"
      by (rule hd_dropWhile)
    moreover from ne have "hd (dropWhile isWhiteSpace s) \<in> set (dropWhile isWhiteSpace s)"
      by (rule hd_in_set)
    ultimately show False using all by blast
  qed
  then show "\<forall>c \<in> set s. isWhiteSpace c"
    by (simp add: dropWhile_eq_Nil_conv)
next
  assume "\<forall>c \<in> set s. isWhiteSpace c"
  then have d: "dropWhile isWhiteSpace s = []"
    by (induction s) simp_all
  show "trim s = []"
    unfolding trim_def d by simp
qed

lemma currentCard_update [simp]:
  "currentCard cards (s\<lparr>isBookmarked_st := b\<rparr>) = currentCard cards s"
  "currentCard cards (s\<lparr>input := txt\<rparr>) = currentCard cards s"
  "currentCard cards (s\<lparr>results := res\<rparr>) = currentCard cards s"
  "currentCard cards (s\<lparr>resultsRev := n\<rparr>) = currentCard cards s"
  "currentCard cards (s\<lparr>isFlipped := b\<rparr>) = currentCard cards s"
  "currentCard cards (s\<lparr>emitted := e\<rparr>) = currentCard cards s"
  by (simp_all add: currentCard_def currentCardPos_def)



lemma rehydrate_frame [simp]:
  "results (rehydrate cards s) = results s"
  "emitted (rehydrate cards s) = emitted s"
  "queue (rehydrate cards s) = queue s"
  "queueIndex (rehydrate cards s) = queueIndex s"
  "showRetryPrompt (rehydrate cards s) = showRetryPrompt s"
  "isFlipped (rehydrate cards s) = isFlipped s"
  "resultsRev (rehydrate cards s) = resultsRev s"
  by (simp_all add: rehydrate_def split: option.splits)

lemma skippedCount_rehydrate [simp]:
  "skippedCount cards' (rehydrate cards s) = skippedCount cards' s"
  by (simp add: skippedCount_def)

lemma currentCard_rehydrate [simp]:
  "currentCard cards' (rehydrate cards s) = currentCard cards' s"
  by (simp add: currentCard_def currentCardPos_def)


lemma effects_frame [simp]:
  "results (effects cards prev s) = results s"
  "queue (effects cards prev s) = queue s"
  "queueIndex (effects cards prev s) = queueIndex s"
  "showRetryPrompt (effects cards prev s) = showRetryPrompt s"
  "isFlipped (effects cards prev s) = isFlipped s"
  "resultsRev (effects cards prev s) = resultsRev s"
  by (simp_all add: effects_def handleFinish_def Let_def)

lemma skippedCount_effects [simp]:
  "skippedCount cards' (effects cards prev s) = skippedCount cards' s"
  by (simp add: skippedCount_def)

lemma currentCard_effects [simp]:
  "currentCard cards' (effects cards prev s) = currentCard cards' s"
  by (simp add: currentCard_def currentCardPos_def)

lemma effects_emitted:
  "emitted (effects cards prev s) =
     (if emitted s \<noteq> None then emitted s
      else if (showRetryPrompt s \<noteq> showRetryPrompt prev
                 \<or> skippedCount cards s \<noteq> skippedCount cards prev)
              \<and> showRetryPrompt s \<and> skippedCount cards s = 0
           then Some (finalResults cards (results s)) else None)"
  by (auto simp: effects_def handleFinish_def Let_def)

lemma effects_scratch:
  "input (effects cards prev s) =
     (if emitted s = None \<and> (currentCardPos cards s \<noteq> currentCardPos cards prev
          \<or> resultsRev s \<noteq> resultsRev prev \<or> isFlipped s \<noteq> isFlipped prev)
      then input (rehydrate cards s) else input s)"
  "isBookmarked_st (effects cards prev s) =
     (if emitted s = None \<and> (currentCardPos cards s \<noteq> currentCardPos cards prev
          \<or> resultsRev s \<noteq> resultsRev prev \<or> isFlipped s \<noteq> isFlipped prev)
      then isBookmarked_st (rehydrate cards s) else isBookmarked_st s)"
  by (auto simp: effects_def handleFinish_def Let_def)

lemma dispatch_after:
  "after (dispatch cards a s) =
     (if emitted s \<noteq> None then s else effects cards s (after (handler cards a s)))"
  by (cases "handler cards a s") (simp_all add: dispatch_def)

subsection \<open>What one handler does\<close>

lemma handler_results:
  "results (after (handler cards a s)) = results s
   \<or> (\<exists>c txt sk bm. currentCard cards s = Some c \<and>
        results (after (handler cards a s)) =
          (results s)(id_fc c \<mapsto> \<lparr>cardId = id_fc c, chinese = chinese_fc c,
             correctEnglish = english_fc c, userInput = txt, isSkipped = sk,
             isBookmarked = bm\<rparr>))"
  by (cases a) (auto simp: handler_defs Let_def split: option.splits)

lemma handler_emitted:
  "emitted s = None \<Longrightarrow>
   emitted (after (handler cards a s)) = None
   \<or> emitted (after (handler cards a s)) =
        Some (finalResults cards (results (after (handler cards a s))))"
  by (cases a) (auto simp: handler_defs Let_def split: option.splits)




lemma handler_no_write:
  "\<not> writes cards a s \<Longrightarrow> emitted s = None \<Longrightarrow>
   results (after (handler cards a s)) = results s"
  by (cases a) (auto simp: writes_def handler_defs Let_def split: option.splits if_splits)

lemma setInput_step:
  "emitted s = None \<Longrightarrow> dispatch cards (SetInput txt) s = Ok (s\<lparr>input := txt\<rparr>)"
  by (simp add: dispatch_def effects_def currentCardPos_def skippedCount_def)

lemma toggle_results:
  assumes "emitted s = None" "currentCard cards s = Some c"
  shows "dispatch cards ToggleBookmark s =
           Ok (effects cards s
                (s\<lparr>isBookmarked_st := \<not> isBookmarked_st s,
                   results := (results s)(id_fc c \<mapsto>
                     \<lparr>cardId = id_fc c, chinese = chinese_fc c, correctEnglish = english_fc c,
                      userInput = input s, isSkipped = False,
                      isBookmarked = \<not> isBookmarked_st s\<rparr>),
                   resultsRev := Suc (resultsRev s)\<rparr>))"
  using assms by (simp add: dispatch_def toggleBookmark_def saveCurrentResult_def Let_def)

lemma skip_results:
  assumes "emitted s = None" "currentCard cards s = Some c"
  shows "dispatch cards Skip s =
           Ok (effects cards s
                (goToNextCard (s\<lparr>results := (results s)(id_fc c \<mapsto>
                     \<lparr>cardId = id_fc c, chinese = chinese_fc c, correctEnglish = english_fc c,
                      userInput = input s, isSkipped = True,
                      isBookmarked = isBookmarked_st s\<rparr>),
                   resultsRev := Suc (resultsRev s)\<rparr>)))"
  using assms by (simp add: dispatch_def handleSkip_def saveCurrentResult_def)

lemma submit_results:
  assumes "emitted s = None" "currentCard cards s = Some c" "trim (input s) \<noteq> []"
  shows "dispatch cards Submit s =
           Ok (effects cards s
                (s\<lparr>results := (results s)(id_fc c \<mapsto>
                     \<lparr>cardId = id_fc c, chinese = chinese_fc c, correctEnglish = english_fc c,
                      userInput = input s, isSkipped = False,
                      isBookmarked = isBookmarked_st s\<rparr>),
                   resultsRev := Suc (resultsRev s), isFlipped := True\<rparr>))"
  using assms by (simp add: dispatch_def handleSubmit_def saveCurrentResult_def)

lemma submit_state:
  assumes "emitted s = None" "currentCard cards s = Some c" "trim (input s) \<noteq> []"
  shows "results (after (dispatch cards Submit s)) =
           (results s)(id_fc c \<mapsto>
              \<lparr>cardId = id_fc c, chinese = chinese_fc c, correctEnglish = english_fc c,
               userInput = input s, isSkipped = False, isBookmarked = isBookmarked_st s\<rparr>)"
    and "isBookmarked_st (after (dispatch cards Submit s)) = isBookmarked_st s"
    and "input (after (dispatch cards Submit s)) = input s"
    and "currentCard cards (after (dispatch cards Submit s)) = Some c"
  using assms
  by (simp_all add: submit_results [OF assms] effects_scratch rehydrate_def)

lemma submit_rejected:
  "trim (input s) = [] \<Longrightarrow> after (dispatch cards Submit s) = s"
  by (simp add: dispatch_after handleSubmit_def effects_def)

lemma submit_bookmark:
  assumes "emitted s = None" "currentCard cards s = Some c"
  shows "isBookmarked_st (after (dispatch cards Submit s)) = isBookmarked_st s"
    and "currentCard cards (after (dispatch cards Submit s)) = Some c"
  using assms submit_state(2,4) [OF assms] submit_rejected [of s cards]
  by (cases "trim (input s) = []"; simp)+

lemma next_step:
  "emitted s = None \<Longrightarrow> after (dispatch cards Next s) = effects cards s (goToNextCard s)"
  by (simp add: dispatch_after)

lemma retry_step:
  "emitted s = None \<Longrightarrow> after (dispatch cards Retry s) = effects cards s (handleRetry cards s)"
  by (simp add: dispatch_after)

lemma mount_init: "mount cards = Ok (init cards)"
  by (simp add: mount_def rehydrate_def init_def split: option.splits)

subsection \<open>The skipped positions\<close>

lemma skippedIndices_sorted: "sorted_wrt (<) (skippedIndices cards res)"
  by (simp add: skippedIndices_def sorted_wrt_filter)

lemma skippedIndices_set:
  "set (skippedIndices cards res) =
     {i. i < length cards \<and> (\<exists>r. res (id_fc (cards ! i)) = Some r \<and> isSkipped r)}"
  by (auto simp: skippedIndices_def skippedIn_def split: option.splits)

lemma skippedCount_indices:
  "skippedCount cards s = length (skippedIndices cards (results s))"
proof -
  have "filter (skippedIn (results s)) cards
          = map (\<lambda>i. cards ! i) (skippedIndices cards (results s))"
    unfolding skippedIndices_def
    by (subst (1) map_nth [symmetric, of cards]) (simp only: filter_map comp_def)
  then show ?thesis
    by (simp add: skippedCount_def)
qed

subsection \<open>Invariants along a run\<close>

lemma ledger_keyed_dispatch:
  "ledger_keyed s \<Longrightarrow> ledger_keyed (after (dispatch cards a s))"
  using handler_results [of cards a s]
  by (auto simp: dispatch_after ledger_keyed_def split: if_splits)

lemma emitted_final_dispatch:
  "emitted_final cards s \<Longrightarrow> emitted_final cards (after (dispatch cards a s))"
  using handler_emitted [of s cards a]
  by (auto simp: dispatch_after emitted_final_def effects_emitted split: if_splits)

lemma prompt_live_dispatch:
  "prompt_live cards s \<Longrightarrow> prompt_live cards (after (dispatch cards a s))"
  by (auto simp: prompt_live_def dispatch_after effects_emitted split: if_splits)


lemma handler_queue_ok:
  "queue_ok cards s \<Longrightarrow> queue_ok cards (after (handler cards a s))"
proof (cases a)
  case Retry
  assume "queue_ok cards s"
  then show ?thesis
    by (auto simp: Retry queue_ok_def handleRetry_def handleFinish_def Let_def skippedIndices_def)
qed (auto simp: queue_ok_def handler_defs Let_def split: option.splits if_splits)

lemma queue_ok_dispatch:
  "queue_ok cards s \<Longrightarrow> queue_ok cards (after (dispatch cards a s))"
  using handler_queue_ok [of cards s a]
  by (simp add: dispatch_after queue_ok_def)

lemma write_rel_step:
  assumes "write_rel s w"
  shows "write_rel (after (dispatch cards a s))
           (case currentCard cards s of
              Some c \<Rightarrow> if writes cards a s then w(id_fc c \<mapsto> a) else w
            | None \<Rightarrow> w)"
proof (cases "writes cards a s")
  case False
  then have "results (after (dispatch cards a s)) = results s"
    using handler_no_write [of cards a s] by (simp add: dispatch_after)
  with False assms show ?thesis
    by (simp add: write_rel_def split: option.splits)
next
  case True
  then obtain c where c: "currentCard cards s = Some c" and m: "emitted s = None"
    by (auto simp: writes_def)
  from True consider "a = ToggleBookmark" | "a = Skip" | "a = Submit" "trim (input s) \<noteq> []"
    by (auto simp: writes_def)
  then have "\<exists>r. results (after (dispatch cards a s)) = (results s)(id_fc c \<mapsto> r)
               \<and> (isSkipped r \<longleftrightarrow> a = Skip)"
  proof cases
    case 1
    have "results (after (dispatch cards a s)) = (results s)(id_fc c \<mapsto>
            \<lparr>cardId = id_fc c, chinese = chinese_fc c, correctEnglish = english_fc c,
             userInput = input s, isSkipped = False, isBookmarked = \<not> isBookmarked_st s\<rparr>)"
      by (simp add: 1 toggle_results [OF m c])
    with 1 show ?thesis by fastforce
  next
    case 2
    have "results (after (dispatch cards a s)) = (results s)(id_fc c \<mapsto>
            \<lparr>cardId = id_fc c, chinese = chinese_fc c, correctEnglish = english_fc c,
             userInput = input s, isSkipped = True, isBookmarked = isBookmarked_st s\<rparr>)"
      by (simp add: 2 skip_results [OF m c] goToNextCard_def)
    with 2 show ?thesis by fastforce
  next
    case 3
    have "results (after (dispatch cards a s)) = (results s)(id_fc c \<mapsto>
            \<lparr>cardId = id_fc c, chinese = chinese_fc c, correctEnglish = english_fc c,
             userInput = input s, isSkipped = False, isBookmarked = isBookmarked_st s\<rparr>)"
      by (simp add: 3 submit_state(1) [OF m c])
    with 3 show ?thesis by fastforce
  qed
  then obtain r where "results (after (dispatch cards a s)) = (results s)(id_fc c \<mapsto> r)"
    "isSkipped r \<longleftrightarrow> a = Skip" by blast
  with assms True c show ?thesis
    by (simp add: write_rel_def)
qed

lemma ledger_keyed_exec: "ledger_keyed s \<Longrightarrow> ledger_keyed (exec cards acts s)"
  by (induction acts arbitrary: s) (simp_all add: ledger_keyed_dispatch)

lemma emitted_final_exec:
  "emitted_final cards s \<Longrightarrow> emitted_final cards (exec cards acts s)"
  by (induction acts arbitrary: s) (simp_all add: emitted_final_dispatch)

lemma prompt_live_exec: "prompt_live cards s \<Longrightarrow> prompt_live cards (exec cards acts s)"
  by (induction acts arbitrary: s) (simp_all add: prompt_live_dispatch)


lemma write_rel_exec:
  "write_rel s w \<Longrightarrow> write_rel (exec cards acts s) (lastWrite cards acts s w)"
  by (induction acts arbitrary: s w) (simp_all add: write_rel_step)

text \<open>
  With no submit and no skip on a card id, the last write to it, if any, is a toggle of
  the bookmark, and there is one exactly when the bookmark was toggled on it.
\<close>

lemma lastWrite_toggle_only:
  assumes "w k = None \<or> w k = Some ToggleBookmark"
    and "Submit \<notin> set (actionsOn cards acts s k)" "Skip \<notin> set (actionsOn cards acts s k)"
  shows "lastWrite cards acts s w k =
           (if w k = None \<and> ToggleBookmark \<notin> set (actionsOn cards acts s k)
            then None else Some ToggleBookmark)"
  using assms
proof (induction acts arbitrary: s w)
  case Nil
  then show ?case by auto
next
  case (Cons a as)
  define w' where "w' = (case currentCard cards s of
          Some c \<Rightarrow> if writes cards a s then w(id_fc c \<mapsto> a) else w
        | None \<Rightarrow> w)"
  define s' where "s' = after (dispatch cards a s)"
  have rest: "Submit \<notin> set (actionsOn cards as s' k)" "Skip \<notin> set (actionsOn cards as s' k)"
    using Cons.prems(2,3) by (simp_all add: s'_def)
  have step: "lastWrite cards (a # as) s w k = lastWrite cards as s' w' k"
    by (simp add: w'_def s'_def)
  show ?case
  proof (cases "emitted s = None \<and> map_option id_fc (currentCard cards s) = Some k")
    case True
    then obtain c where c: "currentCard cards s = Some c" "id_fc c = k" and m: "emitted s = None"
      by auto
    from True Cons.prems(2,3) have a: "a \<noteq> Submit" "a \<noteq> Skip"
      by auto
    have hd: "set (actionsOn cards (a # as) s k) = insert a (set (actionsOn cards as s' k))"
      using True by (simp add: s'_def)
    show ?thesis
    proof (cases "a = ToggleBookmark")
      case True
      then have "w' k = Some ToggleBookmark"
        using c m by (simp add: w'_def writes_def)
      then have "lastWrite cards as s' w' k = Some ToggleBookmark"
        using Cons.IH [of w' s'] rest by simp
      then show ?thesis
        unfolding step hd using True by simp
    next
      case False
      with a have "\<not> writes cards a s" by (simp add: writes_def)
      then have w': "w' = w" using c by (simp add: w'_def)
      have "lastWrite cards as s' w k =
           (if w k = None \<and> ToggleBookmark \<notin> set (actionsOn cards as s' k)
            then None else Some ToggleBookmark)"
        using Cons.IH [of w s'] Cons.prems(1) rest by simp
      then show ?thesis
        unfolding step hd w' using False by auto
    qed
  next
    case False
    then have hd: "actionsOn cards (a # as) s k = actionsOn cards as s' k"
      by (simp add: s'_def)
    from False have "w' k = w k"
      by (auto simp: w'_def writes_def split: option.splits)
    then show ?thesis
      unfolding step hd using Cons.IH [of w' s'] Cons.prems(1) rest by simp
  qed
qed

lemma ledger_keyed_init: "ledger_keyed (init cards)"
  by (simp add: ledger_keyed_def init_def)

lemma emitted_final_init: "emitted_final cards (init cards)"
  by (simp add: emitted_final_def init_def)

lemma prompt_live_init: "prompt_live cards (init cards)"
  by (simp add: prompt_live_def init_def)


lemma write_rel_init: "write_rel (init cards) Map.empty"
  by (simp add: write_rel_def init_def)

lemma emitted_exec_length:
  "emitted (exec cards acts (init cards)) = Some fr \<Longrightarrow> length fr = length cards"
  using emitted_final_exec [OF emitted_final_init, of cards acts]
  by (simp add: emitted_final_def finalResults_def)

lemma queue_ok_exec: "queue_ok cards s \<Longrightarrow> queue_ok cards (exec cards acts s)"
  by (induction acts arbitrary: s) (simp_all add: queue_ok_dispatch)

lemma queue_ok_init: "cards \<noteq> [] \<Longrightarrow> queue_ok cards (init cards)"
  by (simp add: queue_ok_def init_def)

lemma queue_ok_current: "queue_ok cards s \<Longrightarrow> \<exists>c. currentCard cards s = Some c"
  by (simp add: queue_ok_def currentCard_def currentCardPos_def)

text \<open>Over a card list that is not empty, every run leaves a current card.\<close>

lemma reachable_current:
  "cards \<noteq> [] \<Longrightarrow> \<exists>c. currentCard cards (exec cards acts (init cards)) = Some c"
  by (intro queue_ok_current queue_ok_exec queue_ok_init)

lemma finalResults_length: "length (finalResults cards res) = length cards"
  by (simp add: finalResults_def)

lemma finalResults_nth:
  "i < length cards \<Longrightarrow>
   finalResults cards res ! i =
     (case res (id_fc (cards ! i)) of Some r \<Rightarrow> r | None \<Rightarrow> synthesized (cards ! i))"
  by (simp add: finalResults_def synthesized_def split: option.splits)

section \<open>The claims\<close>

subsection \<open>Total coverage\<close>

text \<open>
  Claim C1. For any card list and any sequence of actions from the initial state after
  which \<open>onComplete\<close> has been called, the list it was called with has one entry per
  card, the entry at position \<open>i\<close> carries the id of card \<open>i\<close>, and a card with no
  entry in the ledger gets the entry with empty input, skipped and not bookmarked.
\<close>

theorem C1_total_coverage:
  assumes "emitted (exec cards acts (init cards)) = Some fr"
  shows "length fr = length cards \<and>
         (\<forall>i < length cards.
            cardId (fr ! i) = id_fc (cards ! i) \<and>
            (results (exec cards acts (init cards)) (id_fc (cards ! i)) = None \<longrightarrow>
               fr ! i = \<lparr>cardId = id_fc (cards ! i), chinese = chinese_fc (cards ! i),
                          correctEnglish = english_fc (cards ! i), userInput = [],
                          isSkipped = True, isBookmarked = False\<rparr>))"
proof -
  let ?s = "exec cards acts (init cards)"
  have keyed: "ledger_keyed ?s"
    by (rule ledger_keyed_exec [OF ledger_keyed_init])
  have "emitted_final cards ?s"
    by (rule emitted_final_exec [OF emitted_final_init])
  with assms have fr: "fr = finalResults cards (results ?s)"
    by (simp add: emitted_final_def)
  have "cardId (fr ! i) = id_fc (cards ! i)" if "i < length cards" for i
  proof (cases "results ?s (id_fc (cards ! i))")
    case None
    with that show ?thesis by (simp add: fr finalResults_nth synthesized_def)
  next
    case (Some r)
    with keyed have "cardId r = id_fc (cards ! i)" by (simp add: ledger_keyed_def)
    with Some that show ?thesis by (simp add: fr finalResults_nth)
  qed
  moreover have "fr ! i = synthesized (cards ! i)"
    if "i < length cards" "results ?s (id_fc (cards ! i)) = None" for i
    using that by (simp add: fr finalResults_nth)
  ultimately show ?thesis
    by (simp add: fr finalResults_length synthesized_def)
qed

text \<open>
  The run: answer \<open>Hi\<close> on card 1, go on, and go on again from card 2 without
  answering it. Nothing is skipped, so the session finishes; card 2 was never written.
\<close>

theorem C1_total_coverage_witness:
  "emitted (exec [card1, card2] [SetInput txtHi, Submit, Next, Next] (init [card1, card2])) =
     Some [\<lparr>cardId = [0x31], chinese = [0x4F60, 0x597D],
             correctEnglish = [0x48, 0x65, 0x6C, 0x6C, 0x6F],
             userInput = [0x48, 0x69], isSkipped = False, isBookmarked = False\<rparr>,
           \<lparr>cardId = [0x32], chinese = [0x8C22, 0x8C22],
             correctEnglish = [0x54, 0x68, 0x61, 0x6E, 0x6B, 0x73],
             userInput = [], isSkipped = True, isBookmarked = False\<rparr>]
   \<and> results (exec [card1, card2] [SetInput txtHi, Submit, Next, Next] (init [card1, card2]))
        [0x32] = None"
proof -
  let ?fr = "[\<lparr>cardId = [0x31], chinese = [0x4F60, 0x597D],
             correctEnglish = [0x48, 0x65, 0x6C, 0x6C, 0x6F],
             userInput = [0x48, 0x69], isSkipped = False, isBookmarked = False\<rparr>,
           \<lparr>cardId = [0x32], chinese = [0x8C22, 0x8C22],
             correctEnglish = [0x54, 0x68, 0x61, 0x6E, 0x6B, 0x73],
             userInput = [], isSkipped = True, isBookmarked = False\<rparr>]"
  have h: "emitted (exec [card1, card2] [SetInput txtHi, Submit, Next, Next]
             (init [card1, card2])) = Some ?fr"
    by (simp add: eval_defs)
  have n: "results (exec [card1, card2] [SetInput txtHi, Submit, Next, Next]
             (init [card1, card2])) [0x32] = None"
    by (simp add: eval_defs)
  show ?thesis
    using C1_total_coverage [OF h] h n by simp
qed

subsection \<open>What toggling the bookmark writes\<close>




subsection \<open>Accepting the retry\<close>

text \<open>
  Claim C3. In a mounted session (one showing the prompt in particular) \<open>handleRetry\<close>
  collects the positions of the cards whose ledger entry is skipped, in increasing
  position. If there are any, they become the queue, the cursor is 0 and the session is
  active again, the ledger untouched; if there are none, the session finishes with the
  finalised ledger. A session that shows the prompt has at least one.
\<close>

theorem C3_retry_accept:
  assumes "emitted s = None"
  shows "sorted_wrt (<) (skippedIndices cards (results s))
       \<and> set (skippedIndices cards (results s)) =
           {i. i < length cards \<and> (\<exists>r. results s (id_fc (cards ! i)) = Some r \<and> isSkipped r)}
       \<and> (skippedIndices cards (results s) \<noteq> [] \<longrightarrow>
             queue (after (dispatch cards Retry s)) = skippedIndices cards (results s)
           \<and> queueIndex (after (dispatch cards Retry s)) = 0
           \<and> results (after (dispatch cards Retry s)) = results s
           \<and> phase cards (after (dispatch cards Retry s)) = Active)
       \<and> (skippedIndices cards (results s) = [] \<longrightarrow>
             phase cards (after (dispatch cards Retry s)) = Finished
           \<and> emitted (after (dispatch cards Retry s)) = Some (finalResults cards (results s)))
       \<and> (phase cards s = RetryPrompt \<longrightarrow> skippedIndices cards (results s) \<noteq> [])"
proof -
  let ?sk = "skippedIndices cards (results s)"
  let ?s' = "after (dispatch cards Retry s)"
  have s': "?s' = effects cards s (handleRetry cards s)"
    by (rule retry_step [OF assms])
  have nonempty: "queue ?s' = ?sk \<and> queueIndex ?s' = 0 \<and> results ?s' = results s
      \<and> phase cards ?s' = Active" if "?sk \<noteq> []"
  proof -
    from that have h: "handleRetry cards s
        = s\<lparr>queue := ?sk, queueIndex := 0, showRetryPrompt := False\<rparr>"
      by (simp add: handleRetry_def Let_def)
    have "emitted ?s' = None"
      using assms by (simp add: s' h effects_emitted)
    moreover have "\<not> showRetryPrompt ?s'"
      by (simp add: s' h)
    ultimately have "phase cards ?s' = Active"
      by (simp add: phase_def render_def)
    then show ?thesis
      by (simp add: s' h)
  qed
  have empty: "phase cards ?s' = Finished \<and> emitted ?s' = Some (finalResults cards (results s))"
    if "?sk = []"
  proof -
    from that have h: "handleRetry cards s = handleFinish cards s"
      by (simp add: handleRetry_def Let_def)
    have "emitted ?s' = Some (finalResults cards (results s))"
      by (simp add: s' h effects_emitted handleFinish_def)
    then show ?thesis
      by (simp add: phase_def)
  qed
  have "?sk \<noteq> []" if "phase cards s = RetryPrompt"
  proof -
    from that have "skippedCount cards s > 0"
      by (simp add: phase_def render_def split: if_splits)
    then show ?thesis
      by (simp add: skippedCount_indices)
  qed
  with nonempty empty show ?thesis
    by (simp add: skippedIndices_sorted skippedIndices_set)
qed

text \<open>
  The example of the spec: of the cards A, B, C, D the second and the fourth are skipped.
  The prompt is shown; accepting gives the queue of positions 1 and 3. In the retry round
  B is answered and D skipped again, and declining the next prompt hands over the
  results in the order A, B, C, D. In the initial state, where nothing is skipped,
  \<open>handleRetry\<close> finishes.
\<close>

theorem C3_retry_accept_witness:
  "emitted (exec [cardA, cardB, cardC, cardD]
      [SetInput txtOk, Submit, Next, Skip, SetInput txtOk, Submit, Next, Skip]
      (init [cardA, cardB, cardC, cardD])) = None
   \<and> phase [cardA, cardB, cardC, cardD] (exec [cardA, cardB, cardC, cardD]
      [SetInput txtOk, Submit, Next, Skip, SetInput txtOk, Submit, Next, Skip]
      (init [cardA, cardB, cardC, cardD])) = RetryPrompt
   \<and> queue (after (dispatch [cardA, cardB, cardC, cardD] Retry
      (exec [cardA, cardB, cardC, cardD]
        [SetInput txtOk, Submit, Next, Skip, SetInput txtOk, Submit, Next, Skip]
        (init [cardA, cardB, cardC, cardD])))) = [1, 3]
   \<and> phase [cardA, cardB, cardC, cardD] (after (dispatch [cardA, cardB, cardC, cardD] Retry
      (exec [cardA, cardB, cardC, cardD]
        [SetInput txtOk, Submit, Next, Skip, SetInput txtOk, Submit, Next, Skip]
        (init [cardA, cardB, cardC, cardD])))) = Active
   \<and> map_option (map (\<lambda>r. (cardId r, userInput r, isSkipped r)))
       (emitted (exec [cardA, cardB, cardC, cardD]
         [SetInput txtOk, Submit, Next, Skip, SetInput txtOk, Submit, Next, Skip,
          Retry, SetInput txtHi, Submit, Next, Skip, Finish]
         (init [cardA, cardB, cardC, cardD])))
       = Some [([0x41], [0x6F, 0x6B], False), ([0x42], [0x48, 0x69], False),
               ([0x43], [0x6F, 0x6B], False), ([0x44], [], True)]
   \<and> phase [cardA, cardB, cardC, cardD]
        (after (dispatch [cardA, cardB, cardC, cardD] Retry (init [cardA, cardB, cardC, cardD])))
       = Finished"
proof -
  define cs where "cs = [cardA, cardB, cardC, cardD]"
  define s where "s = exec cs
      [SetInput txtOk, Submit, Next, Skip, SetInput txtOk, Submit, Next, Skip] (init cs)"
  have m: "emitted s = None"
    by (simp add: s_def cs_def eval_defs)
  have p: "phase cs s = RetryPrompt"
    by (simp add: s_def cs_def eval_defs)
  have sk: "skippedIndices cs (results s) = [1, 3]"
    by (simp add: s_def cs_def eval_defs upt_rec)
  have m0: "emitted (init cs) = None"
    by (simp add: init_def)
  have sk0: "skippedIndices cs (results (init cs)) = []"
    by (simp add: cs_def init_def skippedIndices_def skippedIn_def)
  have fin: "map_option (map (\<lambda>r. (cardId r, userInput r, isSkipped r)))
       (emitted (exec cs
         [SetInput txtOk, Submit, Next, Skip, SetInput txtOk, Submit, Next, Skip,
          Retry, SetInput txtHi, Submit, Next, Skip, Finish] (init cs)))
       = Some [([0x41], [0x6F, 0x6B], False), ([0x42], [0x48, 0x69], False),
               ([0x43], [0x6F, 0x6B], False), ([0x44], [], True)]"
    by (simp add: cs_def eval_defs upt_rec)
  have "queue (after (dispatch cs Retry s)) = [1, 3]
        \<and> phase cs (after (dispatch cs Retry s)) = Active"
    using C3_retry_accept [OF m, of cs] by (simp add: sk)
  moreover have "phase cs (after (dispatch cs Retry (init cs))) = Finished"
    using C3_retry_accept [OF m0, of cs] by (simp add: sk0)
  ultimately show ?thesis
    using m p fin unfolding s_def cs_def by simp
qed

subsection \<open>No prompt when nothing is skipped\<close>

text \<open>
  Claim C4. A session reached by any run that has the prompt flag set while no card
  counts as skipped is finished, with the finalised ledger handed over. In particular,
  when \<open>goToNextCard\<close> is called at the last queue position of a mounted session with
  nothing skipped, neither the render before the effects nor the one after shows the
  prompt, and the session is finished with the finalised ledger.
\<close>

theorem C4_no_prompt_without_skips:
  assumes "s = exec cards acts (init cards)"
  shows "(showRetryPrompt s \<and> skippedCount cards s = 0 \<longrightarrow>
            phase cards s = Finished \<and> emitted s = Some (finalResults cards (results s)))
       \<and> (emitted s = None \<and> \<not> int (queueIndex s) < int (length (queue s)) - 1
            \<and> skippedCount cards s = 0 \<longrightarrow>
            render cards (after (handler cards Next s)) \<noteq> RetryPromptView
          \<and> render cards (after (dispatch cards Next s)) \<noteq> RetryPromptView
          \<and> phase cards (after (dispatch cards Next s)) = Finished
          \<and> emitted (after (dispatch cards Next s)) = Some (finalResults cards (results s)))"
proof -
  have live: "prompt_live cards s"
    unfolding assms by (rule prompt_live_exec [OF prompt_live_init])
  have fin: "emitted_final cards s"
    unfolding assms by (rule emitted_final_exec [OF emitted_final_init])
  have first: "phase cards s = Finished \<and> emitted s = Some (finalResults cards (results s))"
    if "showRetryPrompt s" "skippedCount cards s = 0"
  proof -
    from live that obtain fr where "emitted s = Some fr"
      by (auto simp: prompt_live_def)
    with fin show ?thesis
      by (simp add: emitted_final_def phase_def)
  qed
  have second: "render cards (after (handler cards Next s)) \<noteq> RetryPromptView
          \<and> render cards (after (dispatch cards Next s)) \<noteq> RetryPromptView
          \<and> phase cards (after (dispatch cards Next s)) = Finished
          \<and> emitted (after (dispatch cards Next s)) = Some (finalResults cards (results s))"
    if m: "emitted s = None" and l: "\<not> int (queueIndex s) < int (length (queue s)) - 1"
      and z: "skippedCount cards s = 0"
  proof -
    from live m z have np: "\<not> showRetryPrompt s"
      by (simp add: prompt_live_def)
    from l have g: "goToNextCard s = s\<lparr>isFlipped := False, showRetryPrompt := True\<rparr>"
      by (simp add: goToNextCard_def)
    have c: "skippedCount cards (goToNextCard s) = 0"
      using z by (simp add: g skippedCount_def)
    have "emitted (after (dispatch cards Next s)) = Some (finalResults cards (results s))"
      using m np c by (simp add: next_step [OF m] effects_emitted) (simp add: g)
    moreover have "skippedCount cards (after (dispatch cards Next s)) = 0"
      using c by (simp add: next_step [OF m])
    ultimately show ?thesis
      using c by (simp add: phase_def render_def)
  qed
  from first second show ?thesis by blast
qed

text \<open>
  With the one card answered, the cursor is at the end of the queue and nothing is
  skipped: going on finishes the session, and the state reached has the prompt flag set,
  nothing skipped, and is finished.
\<close>

theorem C4_no_prompt_without_skips_witness:
  "emitted (exec [card1] [SetInput txtHi, Submit] (init [card1])) = None
   \<and> queueIndex (exec [card1] [SetInput txtHi, Submit] (init [card1])) = 0
   \<and> length (queue (exec [card1] [SetInput txtHi, Submit] (init [card1]))) = 1
   \<and> skippedCount [card1] (exec [card1] [SetInput txtHi, Submit] (init [card1])) = 0
   \<and> render [card1] (after (dispatch [card1] Next
         (exec [card1] [SetInput txtHi, Submit] (init [card1])))) \<noteq> RetryPromptView
   \<and> phase [card1] (after (dispatch [card1] Next
         (exec [card1] [SetInput txtHi, Submit] (init [card1])))) = Finished
   \<and> showRetryPrompt (exec [card1] [SetInput txtHi, Submit, Next] (init [card1]))
   \<and> skippedCount [card1] (exec [card1] [SetInput txtHi, Submit, Next] (init [card1])) = 0
   \<and> phase [card1] (exec [card1] [SetInput txtHi, Submit, Next] (init [card1])) = Finished"
proof -
  define s where "s = exec [card1] [SetInput txtHi, Submit] (init [card1])"
  define t where "t = exec [card1] [SetInput txtHi, Submit, Next] (init [card1])"
  have m: "emitted s = None" and q: "queueIndex s = 0" and l: "length (queue s) = 1"
    and z: "skippedCount [card1] s = 0"
    by (simp_all add: s_def eval_defs)
  have p: "showRetryPrompt t" and zt: "skippedCount [card1] t = 0"
    by (simp_all add: t_def eval_defs)
  have "render [card1] (after (dispatch [card1] Next s)) \<noteq> RetryPromptView
        \<and> phase [card1] (after (dispatch [card1] Next s)) = Finished"
    using C4_no_prompt_without_skips [OF s_def] m q l z by simp
  moreover have "phase [card1] t = Finished"
    using C4_no_prompt_without_skips [OF t_def] p zt by simp
  ultimately show ?thesis
    using m q l z p zt unfolding s_def t_def by simp
qed

subsection \<open>Cards that were never submitted or skipped\<close>

text \<open>
  Claim C5, as the spec has it, fails. On the one card the bookmark is toggled and
  \<open>Next Card\<close> is pressed; no \<open>handleSubmit\<close> and no \<open>handleSkip\<close> occurs. Nothing
  counts as skipped, so the session finishes, and the result of the card is the entry
  the toggle wrote: bookmarked and not skipped. Both controls are in the rendered output.
\<close>

theorem C5_counterexample:
  "offered_run [card1] [ToggleBookmark, Next] (init [card1])
   \<and> emitted (exec [card1] [ToggleBookmark, Next] (init [card1])) =
       Some [\<lparr>cardId = [0x31], chinese = [0x4F60, 0x597D],
               correctEnglish = [0x48, 0x65, 0x6C, 0x6C, 0x6F],
               userInput = [], isSkipped = False, isBookmarked = True\<rparr>]"
  by (simp add: eval_defs)

text \<open>
  Claim C5, amended. When a run from the initial state has finished, the result of a
  card is skipped exactly when no action of the run wrote a ledger entry under its id, or
  the last action that wrote one was \<open>handleSkip\<close>. In particular, for a card on
  which neither \<open>handleSubmit\<close> nor \<open>handleSkip\<close> was ever called, the result is
  skipped exactly when the bookmark was never toggled on it either.
\<close>

theorem C5_finalized_skip_flag:
  assumes "emitted (exec cards acts (init cards)) = Some fr" "i < length cards"
  shows "(isSkipped (fr ! i) \<longleftrightarrow>
           (case lastWrite cards acts (init cards) Map.empty (id_fc (cards ! i)) of
              None \<Rightarrow> True
            | Some a \<Rightarrow> a = Skip))
       \<and> (Submit \<notin> set (actionsOn cards acts (init cards) (id_fc (cards ! i)))
            \<and> Skip \<notin> set (actionsOn cards acts (init cards) (id_fc (cards ! i))) \<longrightarrow>
            (isSkipped (fr ! i) \<longleftrightarrow>
               ToggleBookmark \<notin> set (actionsOn cards acts (init cards) (id_fc (cards ! i)))))"
proof -
  let ?s = "exec cards acts (init cards)"
  let ?k = "id_fc (cards ! i)"
  have "emitted_final cards ?s"
    by (rule emitted_final_exec [OF emitted_final_init])
  with assms(1) have fr: "fr = finalResults cards (results ?s)"
    by (simp add: emitted_final_def)
  have "write_rel ?s (lastWrite cards acts (init cards) Map.empty)"
    by (rule write_rel_exec [OF write_rel_init])
  then have "entry_rel (results ?s ?k) (lastWrite cards acts (init cards) Map.empty ?k)"
    unfolding write_rel_def by blast
  then have general: "isSkipped (fr ! i) \<longleftrightarrow>
           (case lastWrite cards acts (init cards) Map.empty ?k of
              None \<Rightarrow> True
            | Some a \<Rightarrow> a = Skip)"
    using assms(2)
    by (cases "results ?s ?k"; cases "lastWrite cards acts (init cards) Map.empty ?k")
       (simp_all add: fr finalResults_nth synthesized_def)
  have "isSkipped (fr ! i) \<longleftrightarrow> ToggleBookmark \<notin> set (actionsOn cards acts (init cards) ?k)"
    if "Submit \<notin> set (actionsOn cards acts (init cards) ?k)"
      "Skip \<notin> set (actionsOn cards acts (init cards) ?k)"
  proof -
    have "lastWrite cards acts (init cards) Map.empty ?k =
           (if ToggleBookmark \<notin> set (actionsOn cards acts (init cards) ?k)
            then None else Some ToggleBookmark)"
      using lastWrite_toggle_only [of Map.empty ?k cards acts "init cards"] that by simp
    with general show ?thesis
      by simp
  qed
  with general show ?thesis
    by blast
qed

text \<open>
  Three cards: on A the bookmark is toggled, B is skipped, C is passed untouched. The
  prompt is declined. A is not skipped, B and C are. Neither on A nor on C was there
  a submit or a skip.
\<close>

theorem C5_finalized_skip_flag_witness:
  "map_option (map isSkipped)
     (emitted (exec [cardA, cardB, cardC] [ToggleBookmark, Next, Skip, Next, Finish]
        (init [cardA, cardB, cardC]))) = Some [False, True, True]
   \<and> lastWrite [cardA, cardB, cardC] [ToggleBookmark, Next, Skip, Next, Finish]
        (init [cardA, cardB, cardC]) Map.empty [0x41] = Some ToggleBookmark
   \<and> lastWrite [cardA, cardB, cardC] [ToggleBookmark, Next, Skip, Next, Finish]
        (init [cardA, cardB, cardC]) Map.empty [0x42] = Some Skip
   \<and> lastWrite [cardA, cardB, cardC] [ToggleBookmark, Next, Skip, Next, Finish]
        (init [cardA, cardB, cardC]) Map.empty [0x43] = None
   \<and> actionsOn [cardA, cardB, cardC] [ToggleBookmark, Next, Skip, Next, Finish]
        (init [cardA, cardB, cardC]) [0x41] = [ToggleBookmark, Next]
   \<and> actionsOn [cardA, cardB, cardC] [ToggleBookmark, Next, Skip, Next, Finish]
        (init [cardA, cardB, cardC]) [0x43] = [Next, Finish]"
proof -
  define cs where "cs = [cardA, cardB, cardC]"
  define acts where "acts = [ToggleBookmark, Next, Skip, Next, Finish]"
  obtain fr where fr: "emitted (exec cs acts (init cs)) = Some fr"
    by (simp add: cs_def acts_def eval_defs)
  have w: "lastWrite cs acts (init cs) Map.empty [0x41] = Some ToggleBookmark"
    "lastWrite cs acts (init cs) Map.empty [0x42] = Some Skip"
    "lastWrite cs acts (init cs) Map.empty [0x43] = None"
    by (simp_all add: cs_def acts_def eval_defs)
  have on: "actionsOn cs acts (init cs) [0x41] = [ToggleBookmark, Next]"
    "actionsOn cs acts (init cs) [0x43] = [Next, Finish]"
    by (simp_all add: cs_def acts_def eval_defs)
  have k: "id_fc (cs ! 0) = [0x41]" "id_fc (cs ! Suc 0) = [0x42]" "id_fc (cs ! 2) = [0x43]"
    "length cs = 3"
    by (simp_all add: cs_def cardA_def cardB_def cardC_def)
  have len: "length fr = 3"
    using emitted_exec_length [OF fr] by (simp add: cs_def)
  have "isSkipped (fr ! Suc 0)"
    using C5_finalized_skip_flag [OF fr, of "Suc 0", THEN conjunct1] by (simp add: k w)
  moreover have "\<not> isSkipped (fr ! 0)"
    using C5_finalized_skip_flag [OF fr, of 0, THEN conjunct2] by (simp add: k on)
  moreover have "isSkipped (fr ! 2)"
    using C5_finalized_skip_flag [OF fr, of 2, THEN conjunct2] by (simp add: k on)
  ultimately have "map isSkipped fr = [False, True, True]"
    using len
    by (auto simp: list_eq_iff_nth_eq less_Suc_eq numeral_3_eq_3 numeral_2_eq_2)
  with fr w on show ?thesis
    unfolding cs_def acts_def by simp
qed

subsection \<open>Last write wins\<close>

text \<open>
  Claim C6. The ledger is a map, so it holds at most one entry per card id, and
  \<open>saveCurrentResult\<close> replaces the entry of the current card whole: what it leaves
  does not depend on the entry that was there. In particular, in a mounted session with a
  current card, typing and submitting \<open>A\<close> and then typing and submitting \<open>B\<close> (not
  empty after trimming), the session not finishing in between, leaves the entry of the
  card with input \<open>B\<close>, and the finalisation of the ledger gives \<open>B\<close> at every
  position of that id.
\<close>

theorem C6_last_write_wins:
  assumes "emitted s = None" "currentCard cards s = Some c" "trim B \<noteq> []"
    and "emitted (exec cards [SetInput A, Submit] s) = None"
  shows "results (after (saveCurrentResult cards (s\<lparr>results := (results s)(id_fc c := old)\<rparr>)
                   skipped txt bm))
           = results (after (saveCurrentResult cards s skipped txt bm))
       \<and> results (exec cards [SetInput A, Submit, SetInput B, Submit] s) (id_fc c) =
           Some \<lparr>cardId = id_fc c, chinese = chinese_fc c, correctEnglish = english_fc c,
                 userInput = B, isSkipped = False, isBookmarked = isBookmarked_st s\<rparr>
       \<and> (\<forall>i < length cards. id_fc (cards ! i) = id_fc c \<longrightarrow>
             userInput (finalResults cards
               (results (exec cards [SetInput A, Submit, SetInput B, Submit] s)) ! i) = B)"
proof -
  let ?a = "s\<lparr>input := A\<rparr>"
  let ?s1 = "after (dispatch cards Submit ?a)"
  let ?b = "?s1\<lparr>input := B\<rparr>"
  have a: "emitted ?a = None" "currentCard cards ?a = Some c"
    using assms(1,2) by simp_all
  have e1: "exec cards [SetInput A, Submit] s = ?s1"
    by (simp add: setInput_step [OF assms(1)])
  with assms(4) have m1: "emitted ?s1 = None"
    by simp
  have b1: "isBookmarked_st ?s1 = isBookmarked_st s" "currentCard cards ?s1 = Some c"
    using submit_bookmark [OF a] by simp_all
  have b: "emitted ?b = None" "currentCard cards ?b = Some c" "trim (input ?b) \<noteq> []"
    using m1 b1 assms(3) by simp_all
  have e2: "exec cards [SetInput A, Submit, SetInput B, Submit] s
              = after (dispatch cards Submit ?b)"
    by (simp add: setInput_step [OF assms(1)] setInput_step [OF m1])
  have last: "results (exec cards [SetInput A, Submit, SetInput B, Submit] s) (id_fc c) =
           Some \<lparr>cardId = id_fc c, chinese = chinese_fc c, correctEnglish = english_fc c,
                 userInput = B, isSkipped = False, isBookmarked = isBookmarked_st s\<rparr>"
    unfolding e2 submit_state(1) [OF b] using b1 by simp
  have "results (after (saveCurrentResult cards (s\<lparr>results := (results s)(id_fc c := old)\<rparr>)
                   skipped txt bm))
           = results (after (saveCurrentResult cards s skipped txt bm))"
    using assms(2) by (simp add: saveCurrentResult_def)
  with last show ?thesis
    by (simp add: finalResults_nth)
qed

text \<open>On card 1 of the fresh session: \<open>no\<close> is submitted, then \<open>ok\<close>.\<close>

theorem C6_last_write_wins_witness:
  "emitted (init [card1, card2]) = None
   \<and> currentCard [card1, card2] (init [card1, card2]) = Some card1
   \<and> trim txtOk \<noteq> []
   \<and> emitted (exec [card1, card2] [SetInput txtNo, Submit] (init [card1, card2])) = None
   \<and> map_option userInput
        (results (exec [card1, card2] [SetInput txtNo, Submit, SetInput txtOk, Submit]
           (init [card1, card2])) [0x31]) = Some [0x6F, 0x6B]
   \<and> userInput (finalResults [card1, card2]
        (results (exec [card1, card2] [SetInput txtNo, Submit, SetInput txtOk, Submit]
           (init [card1, card2]))) ! 0) = [0x6F, 0x6B]"
proof -
  define cs where "cs = [card1, card2]"
  have m: "emitted (init cs) = None"
    by (simp add: init_def)
  have c: "currentCard cs (init cs) = Some card1"
    by (simp add: cs_def eval_defs)
  have t: "trim txtOk \<noteq> []"
    by (simp add: trim_def isWhiteSpace_def txtOk_def)
  have n: "emitted (exec cs [SetInput txtNo, Submit] (init cs)) = None"
    by (simp add: cs_def eval_defs)
  define s' where "s' = exec cs [SetInput txtNo, Submit, SetInput txtOk, Submit] (init cs)"
  have k: "id_fc card1 = [0x31]" "txtOk = [0x6F, 0x6B]"
    by (simp_all add: card1_def txtOk_def)
  from C6_last_write_wins [OF m c t n]
  have "map_option userInput (results s' (id_fc card1)) = Some txtOk"
    and "\<forall>i < length cs. id_fc (cs ! i) = id_fc card1 \<longrightarrow>
           userInput (finalResults cs (results s') ! i) = txtOk"
    unfolding s'_def by simp_all
  then have "map_option userInput (results s' [0x31]) = Some [0x6F, 0x6B]"
    and "userInput (finalResults cs (results s') ! 0) = [0x6F, 0x6B]"
    by (simp_all add: k cs_def)
  with m c t n show ?thesis
    unfolding s'_def cs_def by simp
qed

subsection \<open>Skipping\<close>




subsection \<open>Rejected calls\<close>

text \<open>
  Claim C8. \<open>handleSubmit\<close> with an edit buffer that is empty or holds white space only,
  and \<open>handlePrevious\<close> at queue position 0, return without throwing and leave every
  state variable as it was (ledger, queue and cursor among them).
\<close>

theorem C8_rejected_calls_are_noops:
  "((\<forall>c \<in> set txt. isWhiteSpace c) \<longrightarrow>
      dispatch cards Submit (s\<lparr>input := txt\<rparr>) = Ok (s\<lparr>input := txt\<rparr>))
   \<and> (queueIndex s = 0 \<longrightarrow> dispatch cards Previous s = Ok s)"
  by (simp add: dispatch_def handleSubmit_def handlePrevious_def effects_def trim_Nil_iff)

theorem C8_rejected_calls_are_noops_witness:
  "isWhiteSpace 0x20 \<and> isWhiteSpace 0x09 \<and> queueIndex (init [card1, card2]) = 0
   \<and> dispatch [card1, card2] Submit ((init [card1, card2])\<lparr>input := [0x20, 0x09]\<rparr>)
        = Ok ((init [card1, card2])\<lparr>input := [0x20, 0x09]\<rparr>)
   \<and> dispatch [card1, card2] Previous (init [card1, card2]) = Ok (init [card1, card2])"
proof -
  have w: "isWhiteSpace 0x20 \<and> isWhiteSpace 0x09"
    by (simp add: isWhiteSpace_def)
  have q: "queueIndex (init [card1, card2]) = 0"
    by (simp add: init_def)
  show ?thesis
    using C8_rejected_calls_are_noops [of "[0x20, 0x09]" "[card1, card2]" "init [card1, card2]"]
      w q by simp
qed

subsection \<open>The empty card list\<close>

text \<open>
  Claim C9, as the spec has it, fails: mounting the component with no cards raises
  nothing. It yields the initial state, which is not finished and shows no prompt.
\<close>

theorem C9_counterexample:
  "mount [] = Ok (init []) \<and> \<not> threw (mount []) \<and> phase [] (after (mount [])) = Active"
  by (simp add: mount_init) (simp add: eval_defs)

text \<open>
  Claim C9, amended. Mounting never throws and yields the initial state. With an empty
  card list that state has an empty queue and no current card, the component renders
  nothing and offers no control; the empty list is turned away before, by the importer,
  which reports an error instead of starting the study step.
\<close>

theorem C9_empty_list_mounts:
  "\<not> threw (mount cards) \<and> after (mount cards) = init cards
   \<and> (cards = [] \<longrightarrow>
        queue (init cards) = [] \<and> currentCard cards (init cards) = None
      \<and> render cards (init cards) = NullView \<and> \<not> offers cards (init cards) a
      \<and> onParsed cards = Inl CouldNotParse)"
  by (simp add: mount_init onParsed_def)
     (simp add: init_def currentCard_def currentCardPos_def render_def offers_def skippedCount_def)

theorem C9_empty_list_mounts_witness:
  "\<not> threw (mount []) \<and> queue (init []) = [] \<and> currentCard [] (init []) = None
   \<and> render [] (init []) = NullView \<and> \<not> offers [] (init []) Skip
   \<and> onParsed [] = Inl CouldNotParse"
  using C9_empty_list_mounts [of "[]" Skip] by simp

subsection \<open>The bookmark toggle persists the edit buffer\<close>

text \<open>
  Claim C10. In a mounted session with a current card, typing a text and toggling the
  bookmark, with no submit, leaves the ledger entry of the card with that text as its
  input, and the finalisation of the ledger gives that text at every position of the
  card's id.
\<close>

theorem C10_toggle_persists_buffer:
  assumes "emitted s = None" "currentCard cards s = Some c"
  shows "map_option userInput (results (exec cards [SetInput txt, ToggleBookmark] s) (id_fc c))
           = Some txt
         \<and> (\<forall>i < length cards. id_fc (cards ! i) = id_fc c \<longrightarrow>
               userInput (finalResults cards
                 (results (exec cards [SetInput txt, ToggleBookmark] s)) ! i) = txt)"
proof -
  let ?t = "s\<lparr>input := txt\<rparr>"
  have t: "emitted ?t = None" "currentCard cards ?t = Some c"
    using assms by simp_all
  have "results (exec cards [SetInput txt, ToggleBookmark] s) (id_fc c) =
          Some \<lparr>cardId = id_fc c, chinese = chinese_fc c, correctEnglish = english_fc c,
                userInput = txt, isSkipped = False, isBookmarked = \<not> isBookmarked_st s\<rparr>"
    by (simp add: setInput_step [OF assms(1)] toggle_results [OF t])
  then show ?thesis
    by (simp add: finalResults_nth)
qed

text \<open>
  On the one card \<open>Hi\<close> is typed and the bookmark toggled; going on finishes the
  session, and the result handed over has the input \<open>Hi\<close>.
\<close>

theorem C10_toggle_persists_buffer_witness:
  "emitted (init [card1]) = None \<and> currentCard [card1] (init [card1]) = Some card1
   \<and> map_option userInput
        (results (exec [card1] [SetInput txtHi, ToggleBookmark] (init [card1])) [0x31])
       = Some [0x48, 0x69]
   \<and> userInput (finalResults [card1]
        (results (exec [card1] [SetInput txtHi, ToggleBookmark] (init [card1]))) ! 0)
       = [0x48, 0x69]
   \<and> map_option (map userInput)
        (emitted (exec [card1] [SetInput txtHi, ToggleBookmark, Next] (init [card1])))
       = Some [[0x48, 0x69]]"
proof -
  define s' where "s' = exec [card1] [SetInput txtHi, ToggleBookmark] (init [card1])"
  have m: "emitted (init [card1]) = None"
    by (simp add: init_def)
  have c: "currentCard [card1] (init [card1]) = Some card1"
    by (simp add: eval_defs)
  have k: "id_fc card1 = [0x31]" "txtHi = [0x48, 0x69]"
    by (simp_all add: card1_def txtHi_def)
  have f: "map_option (map userInput)
        (emitted (exec [card1] [SetInput txtHi, ToggleBookmark, Next] (init [card1])))
       = Some [[0x48, 0x69]]"
    by (simp add: eval_defs)
  from C10_toggle_persists_buffer [OF m c, of txtHi]
  have "map_option userInput (results s' (id_fc card1)) = Some txtHi"
    and "\<forall>i < length [card1]. id_fc ([card1] ! i) = id_fc card1 \<longrightarrow>
           userInput (finalResults [card1] (results s') ! i) = txtHi"
    unfolding s'_def by simp_all
  then have "map_option userInput (results s' [0x31]) = Some [0x48, 0x69]"
    and "userInput (finalResults [card1] (results s') ! 0) = [0x48, 0x69]"
    by (simp_all add: k)
  with m c f show ?thesis
    unfolding s'_def by simp
qed

end
